theory Spec2Isabelle
  imports Main
begin

chapter \<open>The program\<close>

section \<open>Strings\<close>

text \<open>
  A Python \<open>str\<close> is a sequence of Unicode code points, so a string is a list of
  code points (natural numbers); \<open>ustr\<close> turns an ASCII literal into one.
\<close>

type_synonym codepoint = nat
type_synonym pystr = "codepoint list"

abbreviation ustr :: "string \<Rightarrow> pystr" where
  "ustr s \<equiv> map of_char s"

text \<open>
  \<open>str(i)\<close> and \<open>f"{i}"\<close> for a non-negative integer: its decimal digits,
  most significant first (\<open>48\<close> is the digit zero).
\<close>

fun str_nat :: "nat \<Rightarrow> pystr" where
  "str_nat n = (if n < 10 then [48 + n] else str_nat (n div 10) @ [48 + n mod 10])"

declare str_nat.simps [simp del]

text \<open>\<open>sub in s\<close>: the string \<open>sub\<close> occurs in \<open>s\<close> as a contiguous substring.\<close>

fun contains :: "pystr \<Rightarrow> pystr \<Rightarrow> bool" where
  "contains sub [] = (sub = [])"
| "contains sub (c # cs) = (take (length sub) (c # cs) = sub \<or> contains sub cs)"

section \<open>sanitize_filename\<close>

text \<open>
  \<open>INVALID_CHARS_RE = re.compile(r'[\\/:*?"<>|\x00-\x1f]')\<close>: the backslash (92), the
  slash (47), the colon (58), the star (42), the question mark (63), the double quote (34),
  the angle brackets (60, 62), the bar (124) and the control characters 0 to 31.
\<close>

definition invalid_char :: "codepoint \<Rightarrow> bool" where
  "invalid_char c \<longleftrightarrow> c \<in> set [92, 47, 58, 42, 63, 34, 60, 62, 124] \<or> c \<le> 31"

text \<open>
  The characters that \<open>str.strip()\<close> removes, those for which \<open>str.isspace()\<close> holds:
  the ASCII white space and separators, NEL, the no-break space and the Unicode spaces.
\<close>

definition py_isspace :: "codepoint \<Rightarrow> bool" where
  "py_isspace c \<longleftrightarrow>
     (9 \<le> c \<and> c \<le> 13) \<or> (28 \<le> c \<and> c \<le> 32) \<or> c = 133 \<or> c = 160 \<or> c = 5760 \<or>
     (8192 \<le> c \<and> c \<le> 8202) \<or> c = 8232 \<or> c = 8233 \<or> c = 8239 \<or> c = 8287 \<or> c = 12288"

definition strip :: "pystr \<Rightarrow> pystr" where
  "strip s = rev (dropWhile py_isspace (rev (dropWhile py_isspace s)))"

text \<open>
  \<^verbatim>\<open>
  def sanitize_filename(name: str) -> str:
      name = INVALID_CHARS_RE.sub('_', name)
      name = name.strip()
      return name or "_"
  \<close>
  (\<open>95\<close> is the underscore.)
\<close>

definition sanitize_filename :: "pystr \<Rightarrow> pystr" where
  "sanitize_filename name =
     (let name1 = map (\<lambda>c. if invalid_char c then 95 else c) name;
          name2 = strip name1
      in if name2 = [] then [95] else name2)"

section \<open>Paths\<close>

text \<open>
  A \<open>pathlib\<close> path is the list of its components below its anchor; the path \<open>.\<close>
  (or the anchor itself) is the empty list. \<open>name\<close>, \<open>parent\<close>, \<open>stem\<close> and
  \<open>suffix\<close> follow \<open>pathlib\<close> (Python 3.13 and earlier): the suffix starts at the last
  dot of the final component when that dot is neither its first nor its last character.
\<close>

type_synonym path = "pystr list"

definition name_of :: "path \<Rightarrow> pystr" where
  "name_of p = (if p = [] then [] else last p)"

definition parent :: "path \<Rightarrow> path" where
  "parent p = butlast p"

text \<open>\<open>s.rfind(c)\<close>, with \<open>None\<close> for \<open>-1\<close>.\<close>

fun rfind :: "codepoint \<Rightarrow> pystr \<Rightarrow> nat option" where
  "rfind c [] = None"
| "rfind c (x # xs) =
     (case rfind c xs of
        Some i \<Rightarrow> Some (Suc i)
      | None \<Rightarrow> if x = c then Some 0 else None)"

definition suffix_of_name :: "pystr \<Rightarrow> pystr" where
  "suffix_of_name n =
     (case rfind 46 n of
        Some i \<Rightarrow> if 0 < i \<and> Suc i < length n then drop i n else []
      | None \<Rightarrow> [])"

definition stem_of_name :: "pystr \<Rightarrow> pystr" where
  "stem_of_name n =
     (case rfind 46 n of
        Some i \<Rightarrow> if 0 < i \<and> Suc i < length n then take i n else n
      | None \<Rightarrow> n)"

definition suffix :: "path \<Rightarrow> pystr" where
  "suffix p = suffix_of_name (name_of p)"

definition stem :: "path \<Rightarrow> pystr" where
  "stem p = stem_of_name (name_of p)"

text \<open>
  \<open>p / n\<close> for a string \<open>n\<close> without a separator: one more component, except that
  \<open>pathlib\<close> drops an empty component and the component \<open>.\<close>.
\<close>

definition joinpath :: "path \<Rightarrow> pystr \<Rightarrow> path" where
  "joinpath p n = (if n = [] \<or> n = [46] then p else p @ [n])"

section \<open>The file system\<close>

text \<open>
  The existing paths, each with its modification time as
  \<open>datetime.fromtimestamp(p.stat().st_mtime)\<close> gives it (\<open>None\<close> when the time
  stamp is outside the range that \<open>fromtimestamp\<close> accepts, so that the call raises),
  and the paths that the operating system refuses to rename or to write (a permission
  error). \<open>path_exists\<close> is the answer of \<open>path.exists()\<close> when it answers.
\<close>

record datetime =
  year :: nat
  month :: nat
  day :: nat
  hour :: nat
  minute :: nat
  second :: nat
  microsecond :: nat

record filesystem =
  entries :: "(path \<times> datetime option) list"
  locked :: "path list"

datatype error = OSError | KeyError pystr | ValueError | OtherError

definition path_exists :: "filesystem \<Rightarrow> path \<Rightarrow> bool" where
  "path_exists fs p \<longleftrightarrow> p \<in> set (map fst (entries fs))"

text \<open>
  \<open>datetime.fromtimestamp(p.stat().st_mtime)\<close>: raises when the path is gone or its
  time stamp is out of range.
\<close>

definition stat_mtime :: "filesystem \<Rightarrow> path \<Rightarrow> error + datetime" where
  "stat_mtime fs p =
     (case map_of (entries fs) p of
        None \<Rightarrow> Inl OSError
      | Some None \<Rightarrow> Inl ValueError
      | Some (Some t) \<Rightarrow> Inr t)"

text \<open>
  \<open>src.rename(dst)\<close>: raises when the source is gone or is locked; otherwise the
  entry moves to \<open>dst\<close>, replacing what was there.
\<close>

definition rename :: "filesystem \<Rightarrow> path \<Rightarrow> path \<Rightarrow> error + filesystem" where
  "rename fs src dst =
     (case map_of (entries fs) src of
        None \<Rightarrow> Inl OSError
      | Some t \<Rightarrow>
          if src \<in> set (locked fs) then Inl OSError
          else Inr (fs\<lparr>entries := (dst, t) # filter (\<lambda>e. fst e \<noteq> src \<and> fst e \<noteq> dst) (entries fs)\<rparr>))"

section \<open>unique_target\<close>

text \<open>
  \<^verbatim>\<open>
  def unique_target(path: Path):
      if not path.exists():
          return path
      parent = path.parent
      stem = path.stem
      suffix = path.suffix
      i = 1
      while True:
          candidate = parent / f"{stem}_{i}{suffix}"
          if not candidate.exists():
              return candidate
          i += 1
  \<close>
  The loop ends because the file system holds finitely many paths and the candidates
  are pairwise distinct.
\<close>

definition candidate :: "path \<Rightarrow> pystr \<Rightarrow> pystr \<Rightarrow> nat \<Rightarrow> path" where
  "candidate par st suf i = joinpath par (st @ [95] @ str_nat i @ suf)"

lemma str_nat_nonempty: "str_nat n \<noteq> []"
  by (subst str_nat.simps) simp

lemma str_nat_inj: "str_nat m = str_nat n \<Longrightarrow> m = n"
proof (induction m arbitrary: n rule: str_nat.induct)
  case (1 m)
  show ?case
  proof (cases "m < 10")
    case True
    show ?thesis
    proof (cases "n < 10")
      case True
      with \<open>m < 10\<close> "1.prems" show ?thesis
        by (simp add: str_nat.simps [of m] str_nat.simps [of n])
    next
      case False
      with \<open>m < 10\<close> "1.prems" str_nat_nonempty [of "n div 10"] show ?thesis
        by (simp add: str_nat.simps [of m] str_nat.simps [of n] Cons_eq_append_conv)
    qed
  next
    case False
    show ?thesis
    proof (cases "n < 10")
      case True
      with \<open>\<not> m < 10\<close> "1.prems" str_nat_nonempty [of "m div 10"] show ?thesis
        by (simp add: str_nat.simps [of m] str_nat.simps [of n] append_eq_Cons_conv)
    next
      case False
      with \<open>\<not> m < 10\<close> "1.prems"
      have eq: "str_nat (m div 10) = str_nat (n div 10)" and md: "m mod 10 = n mod 10"
        by (simp_all add: str_nat.simps [of m] str_nat.simps [of n])
      from "1.IH" [OF \<open>\<not> m < 10\<close> eq] have "m div 10 = n div 10" .
      with md show ?thesis
        by (metis div_mult_mod_eq)
    qed
  qed
qed

lemma candidate_eq: "candidate par st suf i = par @ [st @ [95] @ str_nat i @ suf]"
  by (cases st) (simp_all add: candidate_def joinpath_def str_nat_nonempty)

lemma candidate_inj: "candidate par st suf i = candidate par st suf j \<Longrightarrow> i = j"
  by (simp add: candidate_eq str_nat_inj)

function unique_loop :: "filesystem \<Rightarrow> path \<Rightarrow> pystr \<Rightarrow> pystr \<Rightarrow> nat \<Rightarrow> path" where
  "unique_loop fs par st suf i =
     (if \<not> path_exists fs (candidate par st suf i) then candidate par st suf i
      else unique_loop fs par st suf (i + 1))"
  by pat_completeness auto
termination
proof (relation "measure (\<lambda>(fs, par, st, suf, i).
    length (filter (\<lambda>q. \<exists>j\<ge>i. q = candidate par st suf j) (map fst (entries fs))))")
  show "wf (measure (\<lambda>(fs, par, st, suf, i).
    length (filter (\<lambda>q. \<exists>j\<ge>i. q = candidate par st suf j) (map fst (entries fs)))))"
    by simp
next
  fix fs :: filesystem and par :: path and st suf :: pystr and i :: nat
  assume "\<not> \<not> path_exists fs (candidate par st suf i)"
  then have mem: "candidate par st suf i \<in> set (map fst (entries fs))"
    by (simp add: path_exists_def)
  let ?xs = "map fst (entries fs)"
  let ?P = "\<lambda>q. \<exists>j\<ge>i + 1. q = candidate par st suf j"
  let ?Q = "\<lambda>q. \<exists>j\<ge>i. q = candidate par st suf j"
  have imp: "?Q q" if "?P q" for q
  proof -
    from that obtain j where "i + 1 \<le> j" and "q = candidate par st suf j"
      by blast
    then have "i \<le> j" and "q = candidate par st suf j"
      by simp_all
    then show ?thesis
      by blast
  qed
  have "filter ?P (filter ?Q ?xs) = filter (\<lambda>q. ?Q q \<and> ?P q) ?xs"
    by (simp only: filter_filter)
  also have "\<dots> = filter ?P ?xs"
    by (rule filter_cong [OF refl]) (use imp in blast)
  finally have sub: "filter ?P ?xs = filter ?P (filter ?Q ?xs)"
    by simp
  have notP: "\<not> ?P (candidate par st suf i)"
    by (auto dest: candidate_inj)
  have inQ: "candidate par st suf i \<in> set (filter ?Q ?xs)"
    using mem by auto
  have "length (filter ?P ?xs) = length (filter ?P (filter ?Q ?xs))"
    by (rule arg_cong [OF sub])
  also have "\<dots> < length (filter ?Q ?xs)"
    using inQ notP
    by (rule length_filter_less [where P = "?P" and x = "candidate par st suf i"])
  finally show "((fs, par, st, suf, i + 1), (fs, par, st, suf, i)) \<in> measure (\<lambda>(fs, par, st, suf, i).
    length (filter (\<lambda>q. \<exists>j\<ge>i. q = candidate par st suf j) (map fst (entries fs))))"
    by (simp only: in_measure prod.case)
qed

declare unique_loop.simps [simp del]

definition unique_target :: "filesystem \<Rightarrow> path \<Rightarrow> path" where
  "unique_target fs p =
     (if \<not> path_exists fs p then p
      else unique_loop fs (parent p) (stem p) (suffix p) 1)"

text \<open>
  \<open>path.exists()\<close> itself can raise: \<open>pathlib\<close> turns a missing file into
  \<open>False\<close>, but lets every other \<open>OSError\<close> through, as for a name longer than the
  file system allows or a directory that may not be searched. \<open>raises\<close> says on which
  paths it does. The call \<open>unique_target(path)\<close> then raises at the first existence
  check that raises, on \<open>path\<close> or on a candidate reached by the loop; when none
  does, \<open>unique_target\<close> above is the path returned.
\<close>

lemma candidate_measure:
  assumes "path_exists fs (candidate par st suf i)"
  shows "length (filter (\<lambda>q. \<exists>j\<ge>i + 1. q = candidate par st suf j) (map fst (entries fs)))
       < length (filter (\<lambda>q. \<exists>j\<ge>i. q = candidate par st suf j) (map fst (entries fs)))"
proof -
  let ?xs = "map fst (entries fs)"
  let ?P = "\<lambda>q. \<exists>j\<ge>i + 1. q = candidate par st suf j"
  let ?Q = "\<lambda>q. \<exists>j\<ge>i. q = candidate par st suf j"
  from assms have mem: "candidate par st suf i \<in> set ?xs"
    by (simp add: path_exists_def)
  have imp: "?Q q" if "?P q" for q
  proof -
    from that obtain j where "i + 1 \<le> j" and "q = candidate par st suf j"
      by blast
    then have "i \<le> j" and "q = candidate par st suf j"
      by simp_all
    then show ?thesis
      by blast
  qed
  have "filter ?P (filter ?Q ?xs) = filter (\<lambda>q. ?Q q \<and> ?P q) ?xs"
    by (simp only: filter_filter)
  also have "\<dots> = filter ?P ?xs"
    by (rule filter_cong [OF refl]) (use imp in blast)
  finally have sub: "filter ?P ?xs = filter ?P (filter ?Q ?xs)"
    by simp
  have notP: "\<not> ?P (candidate par st suf i)"
    by (auto dest: candidate_inj)
  have inQ: "candidate par st suf i \<in> set (filter ?Q ?xs)"
    using mem by auto
  have "length (filter ?P ?xs) = length (filter ?P (filter ?Q ?xs))"
    by (rule arg_cong [OF sub])
  also have "\<dots> < length (filter ?Q ?xs)"
    using inQ notP
    by (rule length_filter_less [where P = "?P" and x = "candidate par st suf i"])
  finally show ?thesis .
qed

function unique_loop_raises ::
  "(path \<Rightarrow> bool) \<Rightarrow> filesystem \<Rightarrow> path \<Rightarrow> pystr \<Rightarrow> pystr \<Rightarrow> nat \<Rightarrow> bool" where
  "unique_loop_raises raises fs par st suf i =
     (if raises (candidate par st suf i) then True
      else if \<not> path_exists fs (candidate par st suf i) then False
      else unique_loop_raises raises fs par st suf (i + 1))"
  by pat_completeness auto
termination
proof (relation "measure (\<lambda>(raises, fs, par, st, suf, i).
    length (filter (\<lambda>q. \<exists>j\<ge>i. q = candidate par st suf j) (map fst (entries fs))))")
  show "wf (measure (\<lambda>(raises :: path \<Rightarrow> bool, fs, par, st, suf, i).
    length (filter (\<lambda>q. \<exists>j\<ge>i. q = candidate par st suf j) (map fst (entries fs)))))"
    by simp
next
  fix raises :: "path \<Rightarrow> bool" and fs :: filesystem and par :: path and st suf :: pystr and i :: nat
  assume "\<not> \<not> path_exists fs (candidate par st suf i)"
  then have "path_exists fs (candidate par st suf i)"
    by simp
  from candidate_measure [OF this]
  show "((raises, fs, par, st, suf, i + 1), (raises, fs, par, st, suf, i)) \<in>
    measure (\<lambda>(raises, fs, par, st, suf, i).
      length (filter (\<lambda>q. \<exists>j\<ge>i. q = candidate par st suf j) (map fst (entries fs))))"
    by (simp only: in_measure prod.case)
qed

declare unique_loop_raises.simps [simp del]

definition unique_target_raises :: "(path \<Rightarrow> bool) \<Rightarrow> filesystem \<Rightarrow> path \<Rightarrow> bool" where
  "unique_target_raises raises fs p =
     (if raises p then True
      else if \<not> path_exists fs p then False
      else unique_loop_raises raises fs (parent p) (stem p) (suffix p) 1)"

section \<open>Template expansion: str.format_map\<close>

text \<open>
  The values of the naming context: an integer (\<open>counter\<close>), strings (\<open>orig\<close>,
  \<open>ext\<close>, \<open>prefix\<close>, \<open>suffix\<close>) and date-times (\<open>date\<close>, \<open>mtime\<close>).
\<close>

datatype pyvalue = IntV int | StrV pystr | DateV datetime

text \<open>
  What the program takes from outside its own source: the paths on which
  \<open>path.exists()\<close> raises, Pillow (whether it could be
  imported, and what \<open>Image.open(path)._getexif()\<close> gives), \<open>datetime.strptime\<close> with
  the format \<open>%Y:%m:%d %H:%M:%S\<close>, and the three steps that \<open>str.format_map\<close> applies
  to the value of a replacement field: the attribute and index lookups written after the
  name (\<open>{date.year}\<close>, \<open>{orig[0]}\<close>), the conversion (\<open>!r\<close>, \<open>!s\<close>, \<open>!a\<close>) and
  \<open>format(value, spec)\<close>. Each of them may raise.
\<close>

datatype exif_value = ExifStr pystr | ExifOther

datatype image_result = ImageRaises | NoExif | ExifTags "(nat \<times> exif_value) list"

record environment =
  exists_raises :: "path \<Rightarrow> bool"
  pil_available :: bool
  read_exif :: "path \<Rightarrow> image_result"
  strptime :: "pystr \<Rightarrow> error + datetime"
  lookup_rest :: "pyvalue \<Rightarrow> pystr \<Rightarrow> error + pyvalue"
  convert :: "codepoint \<Rightarrow> pyvalue \<Rightarrow> error + pyvalue"
  format_value :: "pyvalue \<Rightarrow> pystr \<Rightarrow> error + pystr"

text \<open>
  One replacement field as the scanner of \<open>str.format\<close> delivers it: the text of the
  field name, the conversion character if there is one, the text of the format
  specifier, and whether the specifier holds a brace and so is expanded first.
\<close>

record field =
  field_name :: pystr
  conversion :: "codepoint option"
  format_spec :: pystr
  needs_expanding :: bool

text \<open>
  The field name runs to the first \<open>}\<close>, \<open>:\<close> or \<open>!\<close>; a \<open>[\<close> skips to the next
  \<open>]\<close>; a \<open>{\<close> in it, or the end of the string, is an error. The result is the name,
  the character that ended it and the input after that character.
  (\<open>123\<close> and \<open>125\<close> are the braces, \<open>91\<close> and \<open>93\<close> the brackets, \<open>58\<close> the colon,
  \<open>33\<close> the exclamation mark.)
\<close>

fun scan_field_name :: "bool \<Rightarrow> pystr \<Rightarrow> error + (pystr \<times> codepoint \<times> pystr)" where
  "scan_field_name inbr [] = Inl ValueError"
| "scan_field_name inbr (c # cs) =
     (if inbr then
        (case scan_field_name (c \<noteq> 93) cs of
           Inl e \<Rightarrow> Inl e
         | Inr (n, t, r) \<Rightarrow> Inr (c # n, t, r))
      else if c = 123 then Inl ValueError
      else if c = 125 \<or> c = 58 \<or> c = 33 then Inr ([], c, cs)
      else
        (case scan_field_name (c = 91) cs of
           Inl e \<Rightarrow> Inl e
         | Inr (n, t, r) \<Rightarrow> Inr (c # n, t, r)))"

text \<open>
  The format specifier runs to the \<open>}\<close> that closes the field, counting nested braces;
  the end of the string before it is an error. The result is the specifier, whether it
  holds a \<open>{\<close>, and the input after the closing brace.
\<close>

fun scan_format_spec :: "nat \<Rightarrow> pystr \<Rightarrow> error + (pystr \<times> bool \<times> pystr)" where
  "scan_format_spec count [] = Inl ValueError"
| "scan_format_spec count (c # cs) =
     (if c = 123 then
        (case scan_format_spec (count + 1) cs of
           Inl e \<Rightarrow> Inl e
         | Inr (s, b, r) \<Rightarrow> Inr (c # s, True, r))
      else if c = 125 \<and> count = 1 then Inr ([], False, cs)
      else
        (case scan_format_spec (if c = 125 then count - 1 else count) cs of
           Inl e \<Rightarrow> Inl e
         | Inr (s, b, r) \<Rightarrow> Inr (c # s, b, r)))"

definition parse_spec :: "pystr \<Rightarrow> codepoint option \<Rightarrow> pystr \<Rightarrow> error + (field \<times> pystr)" where
  "parse_spec n conv s =
     (case scan_format_spec 1 s of
        Inl e \<Rightarrow> Inl e
      | Inr (spec, b, r) \<Rightarrow>
          Inr (\<lparr>field_name = n, conversion = conv, format_spec = spec, needs_expanding = b\<rparr>, r))"

text \<open>\<open>parse_field\<close>: the input stands just after the opening brace of a field.\<close>

definition parse_field :: "pystr \<Rightarrow> error + (field \<times> pystr)" where
  "parse_field s =
     (case scan_field_name False s of
        Inl e \<Rightarrow> Inl e
      | Inr (n, t, r) \<Rightarrow>
          if t = 125 then
            Inr (\<lparr>field_name = n, conversion = None, format_spec = [], needs_expanding = False\<rparr>, r)
          else if t = 33 then
            (case r of
               [] \<Rightarrow> Inl ValueError
             | cv # r1 \<Rightarrow>
                 (case r1 of
                    [] \<Rightarrow> parse_spec n (Some cv) []
                  | c # r2 \<Rightarrow>
                      if c = 125 then
                        Inr (\<lparr>field_name = n, conversion = Some cv, format_spec = [],
                              needs_expanding = False\<rparr>, r2)
                      else if c \<noteq> 58 then Inl ValueError
                      else parse_spec n (Some cv) r2))
          else parse_spec n None r)"

text \<open>
  \<open>MarkupIterator_next\<close> on a non-empty input: the literal text up to the next brace
  (a doubled brace is one literal brace and ends the literal), the field that follows, if
  any, and the rest of the input. A single \<open>}\<close>, or a \<open>{\<close> at the end, is an error.
\<close>

definition markup_next :: "pystr \<Rightarrow> error + (pystr \<times> field option \<times> pystr)" where
  "markup_next s =
     (let lit = takeWhile (\<lambda>c. c \<noteq> 123 \<and> c \<noteq> 125) s;
          r = dropWhile (\<lambda>c. c \<noteq> 123 \<and> c \<noteq> 125) s
      in case r of
           [] \<Rightarrow> Inr (lit, None, [])
         | c # r1 \<Rightarrow>
             (case r1 of
                [] \<Rightarrow> Inl ValueError
              | c1 # r2 \<Rightarrow>
                  if c1 = c then Inr (lit @ [c], None, r2)
                  else if c = 125 then Inl ValueError
                  else
                    (case parse_field r1 of
                       Inl e \<Rightarrow> Inl e
                     | Inr (f, rest) \<Rightarrow> Inr (lit, Some f, rest))))"

text \<open>
  The field name splits at its first \<open>.\<close> or \<open>[\<close>. With \<open>format_map\<close> there are no
  positional arguments, so an empty first part or one made of digits is an error; any
  other first part is a key of the mapping, and a missing key raises \<open>KeyError\<close>.
  (The digits here are the ASCII digits; Python counts every Unicode decimal digit, which
  changes the kind of the error for such a name, not that there is one: no key of the
  mapping is made of digits.)
\<close>

definition first_part :: "pystr \<Rightarrow> pystr" where
  "first_part n = takeWhile (\<lambda>c. c \<noteq> 46 \<and> c \<noteq> 91) n"

definition rest_part :: "pystr \<Rightarrow> pystr" where
  "rest_part n = dropWhile (\<lambda>c. c \<noteq> 46 \<and> c \<noteq> 91) n"

definition is_index :: "pystr \<Rightarrow> bool" where
  "is_index n \<longleftrightarrow> (\<forall>c \<in> set n. 48 \<le> c \<and> c \<le> 57)"

definition get_field_object ::
  "environment \<Rightarrow> (pystr \<rightharpoonup> pyvalue) \<Rightarrow> pystr \<Rightarrow> error + pyvalue" where
  "get_field_object env kwargs n =
     (if is_index (first_part n) then Inl ValueError
      else case kwargs (first_part n) of
             None \<Rightarrow> Inl (KeyError (first_part n))
           | Some v \<Rightarrow> lookup_rest env v (rest_part n))"

text \<open>
  \<open>output_markup\<close>: look the field up, convert it, expand the specifier when it holds
  a brace (\<open>sub\<close> is \<open>build_string\<close> one level deeper), format the value.
\<close>

definition output_markup ::
  "environment \<Rightarrow> (pystr \<rightharpoonup> pyvalue) \<Rightarrow> (pystr \<Rightarrow> error + pystr) \<Rightarrow> field \<Rightarrow> error + pystr" where
  "output_markup env kwargs sub f =
     (case get_field_object env kwargs (field_name f) of
        Inl e \<Rightarrow> Inl e
      | Inr obj \<Rightarrow>
          (case (case conversion f of None \<Rightarrow> Inr obj | Some cv \<Rightarrow> convert env cv obj) of
             Inl e \<Rightarrow> Inl e
           | Inr v \<Rightarrow>
               (case (if needs_expanding f then sub (format_spec f) else Inr (format_spec f)) of
                  Inl e \<Rightarrow> Inl e
                | Inr spec \<Rightarrow> format_value env v spec)))"


lemma scan_field_name_split:
  "scan_field_name inbr s = Inr (n, t, r) \<Longrightarrow> s = n @ t # r"
proof (induction inbr s arbitrary: n rule: scan_field_name.induct)
  case (1 inbr)
  then show ?case by simp
next
  case (2 inbr c cs)
  show ?case
  proof (cases inbr)
    case True
    with "2.prems" obtain n' where "scan_field_name (c \<noteq> 93) cs = Inr (n', t, r)" and "n = c # n'"
      by (auto split: sum.splits)
    with "2.IH"(1) [OF True] show ?thesis
      by simp
  next
    case False
    show ?thesis
    proof (cases "c = 125 \<or> c = 58 \<or> c = 33")
      case True
      with False "2.prems" show ?thesis
        by (auto split: if_splits)
    next
      case stop: False
      with False "2.prems" have c: "c \<noteq> 123"
        by (auto split: if_splits)
      with False stop "2.prems" obtain n' where
        "scan_field_name (c = 91) cs = Inr (n', t, r)" and "n = c # n'"
        by (auto split: sum.splits)
      with "2.IH"(2) [OF False c stop] show ?thesis
        by simp
    qed
  qed
qed

lemma scan_format_spec_split:
  "scan_format_spec count s = Inr (sp, b, r) \<Longrightarrow> s = sp @ 125 # r"
proof (induction count s arbitrary: sp b rule: scan_format_spec.induct)
  case (1 count)
  then show ?case by simp
next
  case (2 count c cs)
  show ?case
  proof (cases "c = 123")
    case True
    with "2.prems" obtain sp' b' where "scan_format_spec (count + 1) cs = Inr (sp', b', r)"
      and "sp = c # sp'"
      by (auto split: sum.splits)
    with "2.IH"(1) [OF True] show ?thesis
      by simp
  next
    case False
    show ?thesis
    proof (cases "c = 125 \<and> count = 1")
      case True
      with False "2.prems" show ?thesis
        by simp
    next
      case cont: False
      with False "2.prems" obtain sp' where
        "scan_format_spec (if c = 125 then count - 1 else count) cs = Inr (sp', b, r)"
        and "sp = c # sp'"
        by (auto split: sum.splits)
      with "2.IH"(2) [OF False cont] show ?thesis
        by simp
    qed
  qed
qed

lemma parse_spec_split:
  "parse_spec n conv s = Inr (f, r) \<Longrightarrow> field_name f = n \<and> (\<exists>mid. s = mid @ r \<and> mid \<noteq> [])"
  by (auto simp: parse_spec_def split: sum.splits dest!: scan_format_spec_split)

lemma parse_field_split:
  assumes "parse_field s = Inr (f, r)"
  shows "\<exists>mid. s = field_name f @ mid @ r \<and> mid \<noteq> []"
proof -
  from assms obtain n t r0 where sc: "scan_field_name False s = Inr (n, t, r0)"
    by (auto simp: parse_field_def split: sum.splits)
  then have s: "s = n @ t # r0"
    by (rule scan_field_name_split)
  show ?thesis
  proof (cases "t = 125")
    case True
    with assms sc have "field_name f = n" and "r = r0"
      by (auto simp: parse_field_def)
    with s show ?thesis
      by (intro exI [of _ "[t]"]) simp
  next
    case False
    show ?thesis
    proof (cases "t = 33")
      case bang: True
      show ?thesis
      proof (cases r0)
        case Nil
        with assms sc False bang show ?thesis
          by (simp add: parse_field_def)
      next
        case (Cons cv r1)
        show ?thesis
        proof (cases r1)
          case Nil
          with assms sc False bang Cons show ?thesis
            by (simp add: parse_field_def parse_spec_def)
        next
          case inner: (Cons c r2)
          show ?thesis
          proof (cases "c = 125")
            case True
            with assms sc False bang Cons inner have "field_name f = n" and "r = r2"
              by (auto simp: parse_field_def)
            with s Cons inner show ?thesis
              by (intro exI [of _ "[t, cv, c]"]) simp
          next
            case nb: False
            with assms sc False bang Cons inner have c: "c = 58"
              and ps: "parse_spec n (Some cv) r2 = Inr (f, r)"
              by (auto simp: parse_field_def split: if_splits)
            from parse_spec_split [OF ps] obtain mid where
              "field_name f = n" and "r2 = mid @ r"
              by blast
            with s Cons inner show ?thesis
              by (intro exI [of _ "[t, cv, c] @ mid"]) simp
          qed
        qed
      qed
    next
      case colon: False
      with assms sc False have ps: "parse_spec n None r0 = Inr (f, r)"
        by (simp add: parse_field_def)
      from parse_spec_split [OF ps] obtain mid where
        "field_name f = n" and "r0 = mid @ r"
        by blast
      with s show ?thesis
        by (intro exI [of _ "t # mid"]) simp
    qed
  qed
qed

lemma markup_next_field:
  assumes "markup_next s = Inr (lit, Some f, rest)"
  shows "\<exists>mid. s = lit @ 123 # field_name f @ mid @ rest"
proof -
  let ?P = "\<lambda>c. c \<noteq> 123 \<and> c \<noteq> (125::nat)"
  have s: "s = takeWhile ?P s @ dropWhile ?P s"
    by simp
  from assms obtain c c1 r2 where r: "dropWhile ?P s = c # c1 # r2"
    by (auto simp: markup_next_def Let_def split: list.splits sum.splits if_splits)
  with assms have c: "c = 123" and lit: "lit = takeWhile ?P s"
    and pf: "parse_field (c1 # r2) = Inr (f, rest)"
    using hd_dropWhile [of ?P s]
    by (auto simp: markup_next_def Let_def split: list.splits sum.splits if_splits)
  from parse_field_split [OF pf] obtain mid where "c1 # r2 = field_name f @ mid @ rest"
    by blast
  with s r c lit have "s = lit @ 123 # field_name f @ mid @ rest"
    by metis
  then show ?thesis
    by blast
qed

lemma markup_next_consumes:
  assumes "markup_next s = Inr (lit, fo, rest)" and "s \<noteq> []"
  shows "\<exists>pre. s = pre @ rest \<and> pre \<noteq> []"
proof (cases fo)
  case (Some f)
  with assms markup_next_field [of s lit f rest] obtain mid where
    "s = (lit @ 123 # field_name f @ mid) @ rest"
    by auto
  then show ?thesis
    by blast
next
  case None
  let ?P = "\<lambda>c. c \<noteq> 123 \<and> c \<noteq> (125::nat)"
  have s: "s = takeWhile ?P s @ dropWhile ?P s"
    by simp
  show ?thesis
  proof (cases "dropWhile ?P s")
    case Nil
    with assms None have "rest = []"
      by (simp add: markup_next_def)
    with assms show ?thesis
      by simp
  next
    case (Cons c r1)
    with assms None obtain c1 r2 where "r1 = c1 # r2" and "rest = r2"
      by (auto simp: markup_next_def Let_def split: list.splits sum.splits if_splits)
    with s Cons have "s = (takeWhile ?P s @ [c, c1]) @ rest"
      by simp
    then show ?thesis
      by blast
  qed
qed

lemma markup_next_shorter:
  "markup_next s = Inr (lit, fo, rest) \<Longrightarrow> s \<noteq> [] \<Longrightarrow> length rest < length s"
proof -
  assume "markup_next s = Inr (lit, fo, rest)" and "s \<noteq> []"
  then obtain pre where "s = pre @ rest" and "pre \<noteq> []"
    using markup_next_consumes by blast
  then have "length s = length pre + length rest" and "0 < length pre"
    by simp_all
  then show ?thesis
    by linarith
qed

text \<open>
  \<open>do_markup\<close>: the literal texts and the rendered fields, in order, up to the first
  error.
\<close>

function do_markup ::
  "environment \<Rightarrow> (pystr \<rightharpoonup> pyvalue) \<Rightarrow> (pystr \<Rightarrow> error + pystr) \<Rightarrow> pystr \<Rightarrow> error + pystr" where
  "do_markup env kwargs sub s =
     (if s = [] then Inr []
      else case markup_next s of
             Inl e \<Rightarrow> Inl e
           | Inr (lit, fo, rest) \<Rightarrow>
               (case (case fo of None \<Rightarrow> Inr [] | Some f \<Rightarrow> output_markup env kwargs sub f) of
                  Inl e \<Rightarrow> Inl e
                | Inr txt \<Rightarrow>
                    (case do_markup env kwargs sub rest of
                       Inl e \<Rightarrow> Inl e
                     | Inr out \<Rightarrow> Inr (lit @ txt @ out))))"
  by pat_completeness auto
termination
  by (relation "measure (\<lambda>(env, kwargs, sub, s). length s)")
     (auto dest: markup_next_shorter)

declare do_markup.simps [simp del]

text \<open>
  \<open>build_string\<close> with its recursion depth, which \<open>format_map\<close> starts at 2: a
  specifier may hold fields, the specifiers of those fields may not.
\<close>

fun build_string ::
  "environment \<Rightarrow> (pystr \<rightharpoonup> pyvalue) \<Rightarrow> nat \<Rightarrow> pystr \<Rightarrow> error + pystr" where
  "build_string env kwargs 0 s = Inl ValueError"
| "build_string env kwargs (Suc depth) s = do_markup env kwargs (build_string env kwargs depth) s"

definition format_map :: "environment \<Rightarrow> pystr \<Rightarrow> (pystr \<rightharpoonup> pyvalue) \<Rightarrow> error + pystr" where
  "format_map env pat mapping = build_string env mapping 2 pat"

text \<open>
  The names of the replacement fields that the scanner of \<open>format_map\<close> finds at the top
  level of a pattern, in order, up to the first syntax error: for each field the part of
  its name before the first \<open>.\<close> or \<open>[\<close>, which is the key looked up in the mapping.
\<close>

function field_names :: "pystr \<Rightarrow> pystr list" where
  "field_names s =
     (if s = [] then []
      else case markup_next s of
             Inl e \<Rightarrow> []
           | Inr (lit, fo, rest) \<Rightarrow>
               (case fo of None \<Rightarrow> [] | Some f \<Rightarrow> [first_part (field_name f)]) @ field_names rest)"
  by pat_completeness auto
termination
  by (relation "measure length") (auto dest: markup_next_shorter)

declare field_names.simps [simp del]


section \<open>get_exif_datetime\<close>

text \<open>
  \<^verbatim>\<open>
  def get_exif_datetime(path: Path):
      if not PIL_AVAILABLE:
          return None
      try:
          img = Image.open(path)
          exif = img._getexif()
          if not exif:
              return None
          tag_map = {v:k for k,v in ExifTags.TAGS.items()}
          for candidate in ("DateTimeOriginal","DateTime"):
              tagid = tag_map.get(candidate)
              if tagid and tagid in exif:
                  val = exif[tagid]
                  try:
                      dt = datetime.strptime(val, "%Y:%m:%d %H:%M:%S")
                      return dt
                  except Exception:
                      pass
          return None
      except Exception:
          return None
  \<close>
  The tags are keyed by their EXIF numbers: 36867 is \<open>DateTimeOriginal\<close>, 306 is
  \<open>DateTime\<close>. A value that is not a string makes \<open>strptime\<close> raise.
\<close>

fun first_date :: "environment \<Rightarrow> (nat \<times> exif_value) list \<Rightarrow> nat list \<Rightarrow> datetime option" where
  "first_date env tags [] = None"
| "first_date env tags (tagid # others) =
     (case map_of tags tagid of
        None \<Rightarrow> first_date env tags others
      | Some ExifOther \<Rightarrow> first_date env tags others
      | Some (ExifStr val) \<Rightarrow>
          (case strptime env val of
             Inl e \<Rightarrow> first_date env tags others
           | Inr dt \<Rightarrow> Some dt))"

definition get_exif_datetime :: "environment \<Rightarrow> path \<Rightarrow> datetime option" where
  "get_exif_datetime env p =
     (if \<not> pil_available env then None
      else case read_exif env p of
             ImageRaises \<Rightarrow> None
           | NoExif \<Rightarrow> None
           | ExifTags tags \<Rightarrow> if tags = [] then None else first_date env tags [36867, 306])"

section \<open>The command line and the report\<close>

text \<open>
  The parsed arguments that the renaming run reads. \<open>arg_map_file\<close> is the path the
  mapping is written to: \<open>--map-file\<close>, or the time-stamped default under \<open>--dir\<close>.
\<close>

record args =
  arg_pattern :: pystr
  arg_prefix :: pystr
  arg_suffix :: pystr
  arg_start :: int
  arg_digits :: int
  arg_exif_date :: bool
  arg_apply :: bool
  arg_map_file :: path
  arg_verbose :: bool

text \<open>The lines the program prints, one constructor for each \<open>print\<close> of the source.\<close>

datatype message =
    NoFiles
  | UnknownPlaceholder pystr
  | FormatFailed
  | Planned pystr pystr
  | RenameFailed path path
  | FileFailed path
  | MapSaved path
  | MapSaveFailed
  | DryRunNotice
  | PlanCount nat
  | MapMissing path
  | Reverted path path
  | UndoFailed path path
  | Skipped path path
  | UndoDone nat

text \<open>The variables of the loop in \<open>main\<close>, the file system, and what was printed.\<close>

record run =
  st_counter :: int
  st_ops :: "(path \<times> path) list"
  st_fs :: filesystem
  st_out :: "message list"

section \<open>Planning and renaming\<close>

text \<open>\<open>str(i)\<close> for an integer.\<close>

definition str_int :: "int \<Rightarrow> pystr" where
  "str_int i = (if i < 0 then 45 # str_nat (nat (- i)) else str_nat (nat i))"

text \<open>\<open>re.sub\<close> of a literal pattern: every occurrence, from left to right.\<close>

function replace_all :: "pystr \<Rightarrow> pystr \<Rightarrow> pystr \<Rightarrow> pystr" where
  "replace_all old new s =
     (if s = [] \<or> old = [] then s
      else if take (length old) s = old then new @ replace_all old new (drop (length old) s)
      else hd s # replace_all old new (tl s))"
  by pat_completeness auto
termination
  by (relation "measure (\<lambda>(old, new, s). length s)") auto

declare replace_all.simps [simp del]

text \<open>
  \<^verbatim>\<open>
  pattern = args.pattern
  if args.digits and re.search(r'\{counter\}', pattern):
      pattern = re.sub(r'\{counter\}', f'{{counter:0{args.digits}d}}', pattern)
  \<close>
\<close>

definition effective_pattern :: "args \<Rightarrow> pystr" where
  "effective_pattern a =
     (if arg_digits a \<noteq> 0 \<and> contains (ustr ''{counter}'') (arg_pattern a)
      then replace_all (ustr ''{counter}'')
             (ustr ''{counter:0'' @ str_int (arg_digits a) @ ustr ''d}'') (arg_pattern a)
      else arg_pattern a)"

text \<open>The dictionary \<open>mapping\<close> built for one file.\<close>

definition naming_context ::
  "int \<Rightarrow> pystr \<Rightarrow> pystr \<Rightarrow> datetime \<Rightarrow> datetime \<Rightarrow> pystr \<Rightarrow> pystr \<Rightarrow> (pystr \<rightharpoonup> pyvalue)" where
  "naming_context counter orig_stem ext date_dt mtime_dt pre suf =
     map_of
       [(ustr ''counter'', IntV counter),
        (ustr ''orig'', StrV orig_stem),
        (ustr ''ext'', StrV ext),
        (ustr ''date'', DateV date_dt),
        (ustr ''mtime'', DateV mtime_dt),
        (ustr ''prefix'', StrV pre),
        (ustr ''suffix'', StrV suf)]"

text \<open>\<open>ext = p.suffix.lstrip('.')\<close>\<close>

definition ext_of :: "path \<Rightarrow> pystr" where
  "ext_of p = dropWhile (\<lambda>c. c = 46) (suffix p)"

text \<open>\<open>date_dt = exif_dt or mtime_dt\<close>, with \<open>exif_dt\<close> read only under \<open>--exif-date\<close>.\<close>

definition date_for :: "environment \<Rightarrow> args \<Rightarrow> path \<Rightarrow> datetime \<Rightarrow> datetime" where
  "date_for env a p mtime_dt =
     (case (if arg_exif_date a then get_exif_datetime env p else None) of
        Some exif_dt \<Rightarrow> exif_dt
      | None \<Rightarrow> mtime_dt)"

definition context_for :: "environment \<Rightarrow> args \<Rightarrow> int \<Rightarrow> path \<Rightarrow> datetime \<Rightarrow> (pystr \<rightharpoonup> pyvalue)" where
  "context_for env a counter p mtime_dt =
     naming_context counter (stem p) (ext_of p) (date_for env a p mtime_dt) mtime_dt
       (arg_prefix a) (arg_suffix a)"

text \<open>
  \<^verbatim>\<open>
  if '{ext' in pattern:
      new_name = sanitize_filename(new_name_base)
  else:
      new_name = sanitize_filename(new_name_base) + ('.' + ext if ext else '')
  \<close>
\<close>

definition new_name_for :: "pystr \<Rightarrow> pystr \<Rightarrow> pystr \<Rightarrow> pystr" where
  "new_name_for pat new_name_base ext =
     (if contains (ustr ''{ext'') pat then sanitize_filename new_name_base
      else sanitize_filename new_name_base @ (if ext \<noteq> [] then 46 # ext else []))"

text \<open>
  The body of the loop over the files, for one file \<open>p\<close>. \<open>Inl\<close> is \<open>sys.exit(1)\<close>,
  which the handler \<open>except Exception\<close> around the body does not catch; \<open>Inr\<close> goes on
  to the next file. An exception of \<open>p.stat()\<close> or \<open>fromtimestamp\<close>, or of an
  existence check inside \<open>unique_target\<close>, is caught by that handler: the file is
  reported and nothing else changes, the operations and the counter included.
  \<^verbatim>\<open>
  for p in files:
      try:
          orig_stem = p.stem
          ext = p.suffix.lstrip('.')
          exif_dt = get_exif_datetime(p) if args.exif_date else None
          mtime_dt = datetime.fromtimestamp(p.stat().st_mtime)
          date_dt = exif_dt or mtime_dt
          mapping = {...}
          try:
              new_name_base = pattern.format_map(mapping)
          except KeyError as e:
              print(...); sys.exit(1)
          except Exception as e:
              print(...); sys.exit(1)
          if '{ext' in pattern: ...
          target = p.parent / new_name
          target = unique_target(target)
          ops.append({'src': str(p), 'dst': str(target)})
          if args.verbose or not args.apply:
              print(f"{p.name}  ->  {target.name}")
          if args.apply:
              try:
                  p.rename(target)
              except Exception as e:
                  print(...)
          counter += 1
      except Exception as e:
          print(...)
  \<close>
\<close>

definition process_file :: "environment \<Rightarrow> args \<Rightarrow> pystr \<Rightarrow> run \<Rightarrow> path \<Rightarrow> run + run" where
  "process_file env a pat st p =
     (case stat_mtime (st_fs st) p of
        Inl e \<Rightarrow> Inr (st\<lparr>st_out := st_out st @ [FileFailed p]\<rparr>)
      | Inr mtime_dt \<Rightarrow>
          (case format_map env pat (context_for env a (st_counter st) p mtime_dt) of
             Inl (KeyError k) \<Rightarrow> Inl (st\<lparr>st_out := st_out st @ [UnknownPlaceholder k]\<rparr>)
           | Inl e \<Rightarrow> Inl (st\<lparr>st_out := st_out st @ [FormatFailed]\<rparr>)
           | Inr new_name_base \<Rightarrow>
               (let new_name = new_name_for pat new_name_base (ext_of p) in
                if unique_target_raises (exists_raises env) (st_fs st) (joinpath (parent p) new_name)
                then Inr (st\<lparr>st_out := st_out st @ [FileFailed p]\<rparr>)
                else
                  (let target = unique_target (st_fs st) (joinpath (parent p) new_name);
                       st1 = st\<lparr>st_ops := st_ops st @ [(p, target)],
                                st_out := st_out st @
                                  (if arg_verbose a \<or> \<not> arg_apply a
                                   then [Planned (name_of p) (name_of target)] else [])\<rparr>;
                       st2 = (if arg_apply a then
                                (case rename (st_fs st1) p target of
                                   Inl e \<Rightarrow> st1\<lparr>st_out := st_out st1 @ [RenameFailed p target]\<rparr>
                                 | Inr fs' \<Rightarrow> st1\<lparr>st_fs := fs'\<rparr>)
                              else st1)
                   in Inr (st2\<lparr>st_counter := st_counter st2 + 1\<rparr>)))))"

fun run_files :: "environment \<Rightarrow> args \<Rightarrow> pystr \<Rightarrow> run \<Rightarrow> path list \<Rightarrow> run + run" where
  "run_files env a pat st [] = Inr st"
| "run_files env a pat st (p # ps) =
     (case process_file env a pat st p of
        Inl st' \<Rightarrow> Inl st'
      | Inr st' \<Rightarrow> run_files env a pat st' ps)"

text \<open>
  Writing the mapping with \<open>open(map_file, 'w')\<close> and \<open>json.dump\<close>: the file comes into
  being (at the time \<open>now\<close>), unless the path is locked.
\<close>

definition write_file :: "filesystem \<Rightarrow> path \<Rightarrow> datetime \<Rightarrow> error + filesystem" where
  "write_file fs p now =
     (if p \<in> set (locked fs) then Inl OSError
      else Inr (fs\<lparr>entries := (p, Some now) # filter (\<lambda>e. fst e \<noteq> p) (entries fs)\<rparr>))"

text \<open>
  What a run leaves: the exit code, the last state, and the mapping written to the map
  file, if one was written.
\<close>

record result =
  exit_code :: int
  final :: run
  saved :: "(path \<times> (path \<times> path) list) option"

text \<open>
  The renaming branch of \<open>main\<close>, from the list \<open>files\<close> that \<open>get_files\<close> and the
  sort give:
  \<^verbatim>\<open>
  if not files:
      print("..."); sys.exit(0)
  ...
  counter = args.start
  ops = []
  for p in files: ...
  if args.apply:
      try:
          with open(map_file, 'w', encoding='utf-8') as f:
              json.dump(ops, f, ensure_ascii=False, indent=2)
          print(...)
      except Exception as e:
          print(...)
  else:
      print(...)
      print(f"...: {len(ops)}")
  \<close>
\<close>

definition initial :: "args \<Rightarrow> filesystem \<Rightarrow> run" where
  "initial a fs = \<lparr>st_counter = arg_start a, st_ops = [], st_fs = fs, st_out = []\<rparr>"

definition rename_main :: "environment \<Rightarrow> datetime \<Rightarrow> args \<Rightarrow> path list \<Rightarrow> filesystem \<Rightarrow> result" where
  "rename_main env now a files fs =
     (if files = [] then
        \<lparr>exit_code = 0, final = (initial a fs)\<lparr>st_out := [NoFiles]\<rparr>, saved = None\<rparr>
      else case run_files env a (effective_pattern a) (initial a fs) files of
             Inl st \<Rightarrow> \<lparr>exit_code = 1, final = st, saved = None\<rparr>
           | Inr st \<Rightarrow>
               if arg_apply a then
                 (case write_file (st_fs st) (arg_map_file a) now of
                    Inl e \<Rightarrow>
                      \<lparr>exit_code = 0, final = st\<lparr>st_out := st_out st @ [MapSaveFailed]\<rparr>,
                        saved = None\<rparr>
                  | Inr fs' \<Rightarrow>
                      \<lparr>exit_code = 0,
                        final = st\<lparr>st_fs := fs', st_out := st_out st @ [MapSaved (arg_map_file a)]\<rparr>,
                        saved = Some (arg_map_file a, st_ops st)\<rparr>)
               else
                 \<lparr>exit_code = 0,
                   final = st\<lparr>st_out := st_out st @ [DryRunNotice, PlanCount (length (st_ops st))]\<rparr>,
                   saved = None\<rparr>)"

section \<open>Undo\<close>

text \<open>
  \<^verbatim>\<open>
  reversed_ops = []
  for item in data:
      src = Path(item['src'])
      dst = Path(item['dst'])
      if dst.exists() and not src.exists():
          try:
              dst.rename(src)
              reversed_ops.append((str(dst), str(src)))
              if args.verbose:
                  print(f"REVERT: {dst} -> {src}")
          except Exception as e:
              print(...)
      else:
          print(...)
  print(f"...{len(reversed_ops)}...")
  sys.exit(0)
  \<close>
  \<open>data\<close> is the list of records read from the map file, each a pair (src, dst).
  The two existence checks stand outside every handler: the model is of the runs in
  which they answer.
\<close>

record undo_run =
  u_fs :: filesystem
  u_reversed :: "(path \<times> path) list"
  u_out :: "message list"

definition undo_item :: "bool \<Rightarrow> undo_run \<Rightarrow> path \<times> path \<Rightarrow> undo_run" where
  "undo_item verbose u item =
     (let src = fst item; dst = snd item in
      if path_exists (u_fs u) dst \<and> \<not> path_exists (u_fs u) src then
        (case rename (u_fs u) dst src of
           Inl e \<Rightarrow> u\<lparr>u_out := u_out u @ [UndoFailed dst src]\<rparr>
         | Inr fs' \<Rightarrow>
             u\<lparr>u_fs := fs', u_reversed := u_reversed u @ [(dst, src)],
               u_out := u_out u @ (if verbose then [Reverted dst src] else [])\<rparr>)
      else u\<lparr>u_out := u_out u @ [Skipped dst src]\<rparr>)"



section \<open>An environment for the examples\<close>

text \<open>
  Canned answers for what lies outside the source, on the inputs the examples use:
  \<open>format\<close> of an integer or a string with the empty specifier, a field name without
  attribute or index, no conversion, no Pillow; an existence check raises on a path
  with a component of more than 255 characters (\<open>ENAMETOOLONG\<close>).
\<close>

definition sample_format :: "pyvalue \<Rightarrow> pystr \<Rightarrow> error + pystr" where
  "sample_format v spec =
     (case v of
        IntV i \<Rightarrow> if spec = [] then Inr (str_int i) else Inl ValueError
      | StrV s \<Rightarrow> if spec = [] then Inr s else Inl ValueError
      | DateV d \<Rightarrow> Inl ValueError)"

definition sample_env :: environment where
  "sample_env =
     \<lparr>exists_raises = (\<lambda>p. list_ex (\<lambda>n. 255 < length n) p),
      pil_available = False,
      read_exif = (\<lambda>p. ImageRaises),
      strptime = (\<lambda>s. Inl ValueError),
      lookup_rest = (\<lambda>v r. if r = [] then Inr v else Inl OtherError),
      convert = (\<lambda>c v. Inl ValueError),
      format_value = sample_format\<rparr>"

definition sample_args :: args where
  "sample_args =
     \<lparr>arg_pattern = ustr ''pic_{counter}'', arg_prefix = [], arg_suffix = [], arg_start = 1,
      arg_digits = 0, arg_exif_date = False, arg_apply = False,
      arg_map_file = [ustr ''d'', ustr ''rename_map.json''], arg_verbose = False\<rparr>"

text \<open>A file system for the examples: the given paths, all with the same modification time.\<close>

definition sample_time :: datetime where
  "sample_time = \<lparr>year = 2023, month = 5, day = 1, hour = 12, minute = 0, second = 0, microsecond = 0\<rparr>"

definition disk :: "path list \<Rightarrow> filesystem" where
  "disk ps = \<lparr>entries = map (\<lambda>p. (p, Some sample_time)) ps, locked = []\<rparr>"

abbreviation a_jpg :: path where "a_jpg \<equiv> [ustr ''a.jpg'']"
abbreviation b_jpg :: path where "b_jpg \<equiv> [ustr ''b.jpg'']"


text \<open>
  A file whose name has 254 characters, and a directory with that file, a file whose
  modification time cannot be read, and \<open>b.jpg\<close>.
\<close>

abbreviation long_jpg :: path where "long_jpg \<equiv> [replicate 250 120 @ ustr ''.jpg'']"

abbreviation mixed_disk :: filesystem where
  "mixed_disk \<equiv>
     \<lparr>entries = [(long_jpg, Some sample_time), (a_jpg, None), (b_jpg, Some sample_time)],
      locked = []\<rparr>"

chapter \<open>Properties\<close>

section \<open>Properties of sanitize_filename\<close>

lemma invalid_95: "\<not> invalid_char 95"
  by (simp add: invalid_char_def)

lemma space_95: "\<not> py_isspace 95"
  by (simp add: py_isspace_def)

lemma set_strip: "set (strip s) \<subseteq> set s"
  unfolding strip_def
  by (metis set_rev set_dropWhileD subsetI)

lemma strip_idem: "strip (strip s) = strip s"
proof -
  let ?a = "dropWhile py_isspace s"
  let ?b = "dropWhile py_isspace (rev ?a)"
  have front: "dropWhile py_isspace (rev ?b) = rev ?b"
  proof (cases "?b = []")
    case True
    then show ?thesis by (simp only: rev.simps(1) dropWhile.simps(1))
  next
    case False
    have ne: "?a \<noteq> []"
    proof
      assume "?a = []"
      then have "?b = []"
        by (simp only: rev.simps(1) dropWhile.simps(1))
      with False show False
        by (rule notE)
    qed
    have "rev ?a = takeWhile py_isspace (rev ?a) @ ?b"
      by (simp only: takeWhile_dropWhile_id)
    then have "last (rev ?a) = last (takeWhile py_isspace (rev ?a) @ ?b)"
      by (rule arg_cong)
    also have "\<dots> = last ?b"
      using False by (rule last_appendR)
    finally have "last ?b = hd ?a"
      using ne by (simp only: last_rev)
    moreover have "\<not> py_isspace (hd ?a)"
      using ne by (rule hd_dropWhile)
    ultimately have "\<not> py_isspace (last ?b)"
      by simp
    moreover have "hd (rev ?b) = last ?b"
      by (rule hd_rev)
    ultimately have "\<not> py_isspace (hd (rev ?b))"
      by simp
    moreover from False have "rev ?b \<noteq> []"
      by (simp only: rev_is_Nil_conv not_False_eq_True)
    ultimately show ?thesis
      by (cases "rev ?b") simp_all
  qed
  have "strip (strip s) = rev (dropWhile py_isspace (rev (dropWhile py_isspace (rev ?b))))"
    by (simp only: strip_def)
  also have "\<dots> = rev (dropWhile py_isspace (rev (rev ?b)))"
    by (simp only: front)
  also have "\<dots> = rev ?b"
    by (simp only: rev_rev_ident dropWhile_idem)
  finally show ?thesis
    by (simp only: strip_def)
qed

lemma sanitize_legal: "c \<in> set (sanitize_filename x) \<Longrightarrow> \<not> invalid_char c"
proof -
  assume c: "c \<in> set (sanitize_filename x)"
  let ?m = "map (\<lambda>c. if invalid_char c then 95 else c) x"
  have m: "\<not> invalid_char d" if "d \<in> set ?m" for d
    using that invalid_95 by auto
  show ?thesis
  proof (cases "strip ?m = []")
    case True
    with c show ?thesis
      by (simp add: sanitize_filename_def invalid_95)
  next
    case False
    with c have "c \<in> set (strip ?m)"
      by (simp add: sanitize_filename_def)
    with set_strip have "c \<in> set ?m"
      by blast
    then show ?thesis
      by (rule m)
  qed
qed

lemma sanitize_nonempty: "sanitize_filename x \<noteq> []"
  by (simp add: sanitize_filename_def Let_def)

lemma sanitize_strip: "strip (sanitize_filename x) = sanitize_filename x"
  by (simp add: sanitize_filename_def Let_def strip_idem) (simp add: strip_def space_95)

lemma strip_ends:
  assumes "strip s \<noteq> []"
  shows "\<not> py_isspace (hd (strip s))" and "\<not> py_isspace (last (strip s))"
proof -
  let ?a = "dropWhile py_isspace s"
  let ?b = "dropWhile py_isspace (rev ?a)"
  from assms have b: "?b \<noteq> []"
    by (simp add: strip_def)
  have a: "?a \<noteq> []"
  proof
    assume "?a = []"
    then have "?b = []"
      by (simp only: rev.simps(1) dropWhile.simps(1))
    with b show False
      by (rule notE)
  qed
  have "rev ?a = takeWhile py_isspace (rev ?a) @ ?b"
    by (simp only: takeWhile_dropWhile_id)
  then have "last (rev ?a) = last (takeWhile py_isspace (rev ?a) @ ?b)"
    by (rule arg_cong)
  also have "\<dots> = last ?b"
    using b by (rule last_appendR)
  finally have "last ?b = hd ?a"
    using a by (simp only: last_rev)
  moreover have "\<not> py_isspace (hd ?a)"
    using a by (rule hd_dropWhile)
  moreover have "hd (strip s) = last ?b"
    unfolding strip_def by (rule hd_rev)
  ultimately show "\<not> py_isspace (hd (strip s))"
    by simp
  have "last (strip s) = hd ?b"
    unfolding strip_def using b by (simp only: last_rev)
  moreover have "\<not> py_isspace (hd ?b)"
    using b by (rule hd_dropWhile)
  ultimately show "\<not> py_isspace (last (strip s))"
    by simp
qed

lemma strip_decompose:
  "\<exists>l r. (\<forall>c \<in> set l. py_isspace c) \<and> (\<forall>c \<in> set r. py_isspace c) \<and> s = l @ strip s @ r"
proof -
  let ?l = "takeWhile py_isspace s"
  let ?a = "dropWhile py_isspace s"
  let ?r = "rev (takeWhile py_isspace (rev ?a))"
  have "rev ?a = takeWhile py_isspace (rev ?a) @ dropWhile py_isspace (rev ?a)"
    by (simp only: takeWhile_dropWhile_id)
  then have "rev (rev ?a) = rev (takeWhile py_isspace (rev ?a) @ dropWhile py_isspace (rev ?a))"
    by (rule arg_cong)
  then have a: "?a = strip s @ ?r"
    by (simp only: rev_rev_ident rev_append strip_def)
  have "s = ?l @ ?a"
    by (simp only: takeWhile_dropWhile_id)
  with a have "s = ?l @ strip s @ ?r"
    by simp
  moreover have "\<forall>c \<in> set ?l. py_isspace c"
    by (auto dest: set_takeWhileD)
  moreover have "\<forall>c \<in> set ?r. py_isspace c"
    by (auto dest: set_takeWhileD)
  ultimately show ?thesis
    by blast
qed

text \<open>
  C9: for every string \<open>x\<close>, \<open>sanitize_filename x\<close> holds no character of
  \<open>INVALID_CHARS_RE\<close>, is not empty, and sanitizing twice gives what sanitizing once
  gives. The result is read off the input: in \<open>x\<close> with every character of
  \<open>INVALID_CHARS_RE\<close> replaced by an underscore and every other character kept in its
  place, it is what lies between the white space at the two ends (it starts and ends
  with a character that is not white space), and it is a single underscore when nothing
  lies between.
\<close>

theorem sanitize_legal_idempotent:
  "(\<forall>c \<in> set (sanitize_filename x). \<not> invalid_char c) \<and>
   sanitize_filename (sanitize_filename x) = sanitize_filename x \<and>
   sanitize_filename x \<noteq> [] \<and>
   (\<exists>l r. (\<forall>c \<in> set l. py_isspace c) \<and> (\<forall>c \<in> set r. py_isspace c) \<and>
      (map (\<lambda>c. if invalid_char c then 95 else c) x = l @ sanitize_filename x @ r \<and>
         \<not> py_isspace (hd (sanitize_filename x)) \<and> \<not> py_isspace (last (sanitize_filename x))
       \<or> map (\<lambda>c. if invalid_char c then 95 else c) x = l @ r \<and> sanitize_filename x = [95]))"
proof (intro conjI)
  show "\<forall>c \<in> set (sanitize_filename x). \<not> invalid_char c"
    using sanitize_legal by blast
  have "map (\<lambda>c. if invalid_char c then 95 else c) (sanitize_filename x) = sanitize_filename x"
    by (rule map_idI) (simp add: sanitize_legal)
  then show "sanitize_filename (sanitize_filename x) = sanitize_filename x"
    using sanitize_nonempty [of x]
    by (subst sanitize_filename_def) (simp add: Let_def sanitize_strip)
  show "sanitize_filename x \<noteq> []"
    by (rule sanitize_nonempty)
  let ?y = "map (\<lambda>c. if invalid_char c then 95 else c) x"
  from strip_decompose [of ?y] obtain l r where
    l: "\<forall>c \<in> set l. py_isspace c" and r: "\<forall>c \<in> set r. py_isspace c" and
    y: "?y = l @ strip ?y @ r"
    by blast
  show "\<exists>l r. (\<forall>c \<in> set l. py_isspace c) \<and> (\<forall>c \<in> set r. py_isspace c) \<and>
      (?y = l @ sanitize_filename x @ r \<and>
         \<not> py_isspace (hd (sanitize_filename x)) \<and> \<not> py_isspace (last (sanitize_filename x))
       \<or> ?y = l @ r \<and> sanitize_filename x = [95])"
  proof (cases "strip ?y = []")
    case True
    then have "sanitize_filename x = [95]"
      by (simp add: sanitize_filename_def)
    moreover from y True have "?y = l @ r"
      by simp
    ultimately show ?thesis
      using l r by blast
  next
    case False
    then have s: "sanitize_filename x = strip ?y"
      by (simp add: sanitize_filename_def)
    from strip_ends [OF False] y l r show ?thesis
      unfolding s by blast
  qed
qed

theorem sanitize_legal_idempotent_witness:
  "sanitize_filename (ustr '' a/b?c '') = ustr ''a_b_c'' \<and>
   95 \<in> set (sanitize_filename (ustr '' a/b?c '')) \<and> \<not> invalid_char 95 \<and>
   py_isspace 32 \<and>
   map (\<lambda>c. if invalid_char c then 95 else c) (ustr '' a/b?c '')
     = ustr '' '' @ sanitize_filename (ustr '' a/b?c '') @ ustr '' '' \<and>
   sanitize_filename (sanitize_filename (ustr '' a/b?c '')) = ustr ''a_b_c''"
  using sanitize_legal_idempotent [of "ustr '' a/b?c ''"]
  by (simp add: sanitize_filename_def strip_def invalid_char_def py_isspace_def)

section \<open>Properties of unique_target\<close>

lemma rfind_None: "rfind c xs = None \<longleftrightarrow> c \<notin> set xs"
  by (induction xs) (auto split: option.splits)

lemma rfind_append_notin: "c \<notin> set ys \<Longrightarrow> rfind c (xs @ ys) = rfind c xs"
  by (induction xs) (auto simp: rfind_None split: option.splits)

lemma rfind_append_last: "c \<notin> set ys \<Longrightarrow> rfind c (xs @ c # ys) = Some (length xs)"
  by (induction xs) (auto simp: rfind_None split: option.splits)

lemma rfind_Some:
  "rfind c xs = Some k \<Longrightarrow> k < length xs \<and> xs = take k xs @ c # drop (Suc k) xs \<and> c \<notin> set (drop (Suc k) xs)"
proof (induction xs arbitrary: k)
  case Nil
  then show ?case by simp
next
  case (Cons x xs)
  show ?case
  proof (cases "rfind c xs")
    case None
    with Cons.prems show ?thesis
      by (auto simp: rfind_None split: if_splits)
  next
    case (Some i)
    with Cons.prems have k: "k = Suc i"
      by simp
    from Cons.IH [OF Some] show ?thesis
      unfolding k by simp
  qed
qed

lemma str_nat_digits: "d \<in> set (str_nat n) \<Longrightarrow> 48 \<le> d \<and> d \<le> 57"
proof (induction n rule: str_nat.induct)
  case (1 n)
  show ?case
  proof (cases "n < 10")
    case True
    with "1.prems" show ?thesis
      by (simp add: str_nat.simps [of n])
  next
    case False
    with "1.prems" have "d \<in> set (str_nat (n div 10)) \<or> d = 48 + n mod 10"
      by (auto simp add: str_nat.simps [of n])
    then show ?thesis
    proof
      assume "d \<in> set (str_nat (n div 10))"
      with "1.IH" False show ?thesis
        by blast
    next
      assume "d = 48 + n mod 10"
      moreover have "n mod 10 < 10"
        by simp
      ultimately show ?thesis
        by linarith
    qed
  qed
qed

lemma str_nat_no_dot: "46 \<notin> set (str_nat n)"
  using str_nat_digits [of 46 n] by auto

lemma suffix_stem_renamed:
  assumes "n = [] \<or> last n \<noteq> 46"
  shows "suffix_of_name (stem_of_name n @ [95] @ str_nat i @ suffix_of_name n) = suffix_of_name n \<and>
         stem_of_name (stem_of_name n @ [95] @ str_nat i @ suffix_of_name n) = stem_of_name n @ [95] @ str_nat i"
proof (cases "rfind 46 n")
  case None
  then have st: "stem_of_name n = n" and su: "suffix_of_name n = []"
    by (simp_all add: stem_of_name_def suffix_of_name_def)
  have "rfind 46 (n @ [95] @ str_nat i) = None"
    by (simp add: rfind_append_notin str_nat_no_dot None)
  then show ?thesis
    unfolding st su by (simp add: stem_of_name_def suffix_of_name_def)
next
  case (Some k)
  note k = rfind_Some [OF Some]
  show ?thesis
  proof (cases "0 < k \<and> Suc k < length n")
    case True
    then have st: "stem_of_name n = take k n" and su: "suffix_of_name n = drop k n"
      using Some by (simp_all add: stem_of_name_def suffix_of_name_def)
    from k have dr: "drop k n = 46 # drop (Suc k) n"
      by (metis Cons_nth_drop_Suc nth_append_length length_take min.absorb2 less_imp_le_nat)
    from True have ne: "drop (Suc k) n \<noteq> []"
      by simp
    let ?pre = "take k n @ [95] @ str_nat i"
    have rf: "rfind 46 (?pre @ 46 # drop (Suc k) n) = Some (length ?pre)"
      using k by (intro rfind_append_last) simp
    have eq: "take k n @ [95] @ str_nat i @ drop k n = ?pre @ 46 # drop (Suc k) n"
      by (simp add: dr)
    have len: "0 < length ?pre \<and> Suc (length ?pre) < length (?pre @ 46 # drop (Suc k) n)"
      using ne by simp
    have "suffix_of_name (?pre @ 46 # drop (Suc k) n) = 46 # drop (Suc k) n"
      unfolding suffix_of_name_def rf using len by simp
    moreover have "stem_of_name (?pre @ 46 # drop (Suc k) n) = ?pre"
      unfolding stem_of_name_def rf using len by simp
    ultimately show ?thesis
      unfolding st su eq dr by simp
  next
    case False
    then have st: "stem_of_name n = n" and su: "suffix_of_name n = []"
      using Some by (simp_all add: stem_of_name_def suffix_of_name_def)
    from k have "n \<noteq> []"
      by auto
    with assms have last: "last n \<noteq> 46"
      by simp
    have "k \<noteq> length n - 1"
    proof
      assume "k = length n - 1"
      with k \<open>n \<noteq> []\<close> have "last n = 46"
        by (metis last_conv_nth nth_append_length length_take min.absorb2 less_imp_le_nat)
      with last show False
        by simp
    qed
    with False k have k0: "k = 0"
      by auto
    have "rfind 46 (n @ [95] @ str_nat i) = Some 0"
      using Some k0 by (simp add: rfind_append_notin str_nat_no_dot)
    then show ?thesis
      unfolding st su by (simp add: stem_of_name_def suffix_of_name_def)
  qed
qed

lemma unique_loop_spec:
  "\<exists>i\<ge>k. unique_loop fs par st suf k = candidate par st suf i \<and>
     \<not> path_exists fs (candidate par st suf i) \<and>
     (\<forall>j. k \<le> j \<and> j < i \<longrightarrow> path_exists fs (candidate par st suf j))"
proof (induction fs par st suf k rule: unique_loop.induct)
  case (1 fs par st suf k)
  show ?case
  proof (cases "path_exists fs (candidate par st suf k)")
    case False
    then have "unique_loop fs par st suf k = candidate par st suf k"
      by (simp add: unique_loop.simps)
    with False show ?thesis
      by (intro exI [of _ k]) auto
  next
    case True
    then have step: "unique_loop fs par st suf k = unique_loop fs par st suf (k + 1)"
      by (simp add: unique_loop.simps [of fs par st suf k])
    from "1.IH" True obtain i where i: "k + 1 \<le> i"
      "unique_loop fs par st suf (k + 1) = candidate par st suf i"
      "\<not> path_exists fs (candidate par st suf i)"
      "\<forall>j. k + 1 \<le> j \<and> j < i \<longrightarrow> path_exists fs (candidate par st suf j)"
      by auto
    have "\<forall>j. k \<le> j \<and> j < i \<longrightarrow> path_exists fs (candidate par st suf j)"
    proof (intro allI impI)
      fix j assume j: "k \<le> j \<and> j < i"
      show "path_exists fs (candidate par st suf j)"
      proof (cases "j = k")
        case True
        with \<open>path_exists fs (candidate par st suf k)\<close> show ?thesis by simp
      next
        case False
        with j have "k + 1 \<le> j \<and> j < i" by simp
        with i(4) show ?thesis by blast
      qed
    qed
    with i step show ?thesis
      by (intro exI [of _ i]) simp
  qed
qed


lemmas path_simps = unique_target_def unique_target_raises_def unique_loop_raises.simps path_exists_def disk_def unique_loop.simps candidate_def
  joinpath_def str_nat.simps parent_def stem_def suffix_def stem_of_name_def suffix_of_name_def
  name_of_def

lemma parent_candidate: "parent (candidate par st suf i) = par"
  by (simp add: candidate_eq parent_def)

lemma name_candidate: "name_of (candidate par st suf i) = st @ [95] @ str_nat i @ suf"
  by (simp add: candidate_eq name_of_def)

text \<open>
  C10 (as amended): the path returned by \<open>unique_target\<close> has the parent of the
  candidate. It is the candidate itself when the candidate does not exist; otherwise it is
  \<open>parent / f"{stem}_{i}{suffix}"\<close> for the smallest positive \<open>i\<close> whose path does
  not exist. When the final component of the candidate does not end with a dot, the
  returned path has the suffix of the candidate and the stem of the candidate followed
  by \<open>_i\<close>.
\<close>

theorem unique_target_result:
  "parent (unique_target fs p) = parent p \<and>
   (\<not> path_exists fs p \<longrightarrow> unique_target fs p = p) \<and>
   (path_exists fs p \<longrightarrow>
      (\<exists>i\<ge>1. unique_target fs p = candidate (parent p) (stem p) (suffix p) i \<and>
         \<not> path_exists fs (unique_target fs p) \<and>
         (\<forall>j. 1 \<le> j \<and> j < i \<longrightarrow> path_exists fs (candidate (parent p) (stem p) (suffix p) j)) \<and>
         (name_of p = [] \<or> last (name_of p) \<noteq> 46 \<longrightarrow>
            suffix (unique_target fs p) = suffix p \<and>
            stem (unique_target fs p) = stem p @ [95] @ str_nat i)))"
proof (cases "path_exists fs p")
  case False
  then show ?thesis
    by (simp add: unique_target_def)
next
  case True
  then have ut: "unique_target fs p = unique_loop fs (parent p) (stem p) (suffix p) 1"
    by (simp add: unique_target_def)
  from unique_loop_spec [of 1 fs "parent p" "stem p" "suffix p"]
  obtain i where i: "1 \<le> i"
    "unique_loop fs (parent p) (stem p) (suffix p) 1 = candidate (parent p) (stem p) (suffix p) i"
    "\<not> path_exists fs (candidate (parent p) (stem p) (suffix p) i)"
    "\<forall>j. 1 \<le> j \<and> j < i \<longrightarrow> path_exists fs (candidate (parent p) (stem p) (suffix p) j)"
    by blast
  have res: "unique_target fs p = candidate (parent p) (stem p) (suffix p) i"
    using ut i(2) by simp
  have par: "parent (unique_target fs p) = parent p"
    unfolding res by (rule parent_candidate)
  have suf: "suffix (unique_target fs p) = suffix p \<and>
      stem (unique_target fs p) = stem p @ [95] @ str_nat i"
    if "name_of p = [] \<or> last (name_of p) \<noteq> 46"
    unfolding res suffix_def stem_def name_candidate
    using that by (rule suffix_stem_renamed)
  have "unique_target fs p = candidate (parent p) (stem p) (suffix p) i \<and>
         \<not> path_exists fs (unique_target fs p) \<and>
         (\<forall>j. 1 \<le> j \<and> j < i \<longrightarrow> path_exists fs (candidate (parent p) (stem p) (suffix p) j)) \<and>
         (name_of p = [] \<or> last (name_of p) \<noteq> 46 \<longrightarrow>
            suffix (unique_target fs p) = suffix p \<and>
            stem (unique_target fs p) = stem p @ [95] @ str_nat i)"
    using res i(3,4) suf by simp
  with i(1) have "\<exists>i\<ge>1. unique_target fs p = candidate (parent p) (stem p) (suffix p) i \<and>
         \<not> path_exists fs (unique_target fs p) \<and>
         (\<forall>j. 1 \<le> j \<and> j < i \<longrightarrow> path_exists fs (candidate (parent p) (stem p) (suffix p) j)) \<and>
         (name_of p = [] \<or> last (name_of p) \<noteq> 46 \<longrightarrow>
            suffix (unique_target fs p) = suffix p \<and>
            stem (unique_target fs p) = stem p @ [95] @ str_nat i)"
    by blast
  with par True show ?thesis
    by simp
qed

text \<open>
  C10 as stated fails for a candidate whose final component ends with a dot: \<open>foo.\<close>
  has the empty suffix, and the existing \<open>foo.\<close> resolves to \<open>foo._1\<close>, whose
  suffix is \<open>._1\<close> and whose stem is \<open>foo\<close>.
\<close>

theorem unique_target_suffix_counterexample:
  "path_exists (disk [[ustr ''foo.'']]) [ustr ''foo.''] \<and>
   unique_target (disk [[ustr ''foo.'']]) [ustr ''foo.''] = [ustr ''foo._1''] \<and>
   suffix [ustr ''foo.''] = [] \<and>
   suffix (unique_target (disk [[ustr ''foo.'']]) [ustr ''foo.'']) = ustr ''._1''"
  by (simp add: path_simps)

theorem unique_target_result_witness:
  "path_exists (disk [[ustr ''d'', ustr ''pic.jpg''], [ustr ''d'', ustr ''pic_1.jpg'']]) [ustr ''d'', ustr ''pic.jpg''] \<and>
   unique_target (disk [[ustr ''d'', ustr ''pic.jpg''], [ustr ''d'', ustr ''pic_1.jpg'']]) [ustr ''d'', ustr ''pic.jpg'']
     = [ustr ''d'', ustr ''pic_2.jpg''] \<and>
   parent [ustr ''d'', ustr ''pic_2.jpg''] = parent [ustr ''d'', ustr ''pic.jpg''] \<and>
   suffix [ustr ''d'', ustr ''pic_2.jpg''] = suffix [ustr ''d'', ustr ''pic.jpg''] \<and>
   last (name_of [ustr ''d'', ustr ''pic.jpg'']) \<noteq> 46"
  using unique_target_result [of "disk [[ustr ''d'', ustr ''pic.jpg''], [ustr ''d'', ustr ''pic_1.jpg'']]" "[ustr ''d'', ustr ''pic.jpg'']"]
  by (simp add: path_simps)

section \<open>The loop over the files\<close>



text \<open>The target that the loop body resolves for the file \<open>p\<close> from the expanded name.\<close>

definition target_for :: "filesystem \<Rightarrow> pystr \<Rightarrow> path \<Rightarrow> pystr \<Rightarrow> path" where
  "target_for fs pat p new_name_base =
     unique_target fs (joinpath (parent p) (new_name_for pat new_name_base (ext_of p)))"

text \<open>Whether resolving that target raises.\<close>

definition target_raises :: "environment \<Rightarrow> filesystem \<Rightarrow> pystr \<Rightarrow> path \<Rightarrow> pystr \<Rightarrow> bool" where
  "target_raises env fs pat p new_name_base =
     unique_target_raises (exists_raises env) fs
       (joinpath (parent p) (new_name_for pat new_name_base (ext_of p)))"

lemma process_file_unresolved:
  assumes "stat_mtime (st_fs st) p = Inr mt"
    and "format_map env pat (context_for env a (st_counter st) p mt) = Inr base"
    and "target_raises env (st_fs st) pat p base"
  shows "process_file env a pat st p = Inr (st\<lparr>st_out := st_out st @ [FileFailed p]\<rparr>)"
  using assms by (simp add: process_file_def target_raises_def Let_def)





lemma process_file_planned:
  assumes "stat_mtime (st_fs st) p = Inr mt"
    and "format_map env pat (context_for env a (st_counter st) p mt) = Inr base"
    and "\<not> target_raises env (st_fs st) pat p base"
  shows "\<exists>st'. process_file env a pat st p = Inr st' \<and>
    st_ops st' = st_ops st @ [(p, target_for (st_fs st) pat p base)] \<and>
    st_counter st' = st_counter st + 1 \<and>
    (\<exists>failed. st_out st' = st_out st @
       (if arg_verbose a \<or> \<not> arg_apply a
        then [Planned (name_of p) (name_of (target_for (st_fs st) pat p base))] else []) @ failed \<and>
       (failed = [] \<or> failed = [RenameFailed p (target_for (st_fs st) pat p base)]) \<and>
       (if arg_apply a then
          (case rename (st_fs st) p (target_for (st_fs st) pat p base) of
             Inl e \<Rightarrow> st_fs st' = st_fs st \<and> failed = [RenameFailed p (target_for (st_fs st) pat p base)]
           | Inr fs' \<Rightarrow> st_fs st' = fs' \<and> failed = [])
        else st_fs st' = st_fs st \<and> failed = []))"
  using assms
  by (cases "rename (st_fs st) p (target_for (st_fs st) pat p base)")
     (simp_all add: process_file_def target_for_def target_raises_def Let_def)
















section \<open>Evaluating the examples\<close>

lemma build_string_2:
  "build_string env kwargs 2 s = do_markup env kwargs (build_string env kwargs (Suc 0)) s"
  by (simp add: numeral_2_eq_2)

lemma replicate_numeral_Cons: "replicate (numeral k) x = x # replicate (pred_numeral k) x"
  by (simp add: numeral_eq_Suc)

lemmas run_simps = build_string_2 replicate_numeral_Cons build_string.simps rename_main_def initial_def
  effective_pattern_def process_file_def
  stat_mtime_def context_for_def naming_context_def date_for_def ext_of_def new_name_for_def
  format_map_def do_markup.simps markup_next_def parse_field_def parse_spec_def
  output_markup_def get_field_object_def first_part_def rest_part_def is_index_def
  rename_def write_file_def sample_env_def sample_args_def sample_format_def str_int_def
  sanitize_filename_def strip_def invalid_char_def py_isspace_def Let_def









section \<open>Destinations within one batch\<close>











section \<open>An unknown placeholder\<close>








section \<open>The extension of the new name\<close>

lemma take_is_prefix: "take (length sub) s = sub \<longleftrightarrow> (\<exists>post. s = sub @ post)"
proof
  assume "take (length sub) s = sub"
  then have "s = sub @ drop (length sub) s"
    by (metis append_take_drop_id)
  then show "\<exists>post. s = sub @ post"
    by blast
next
  assume "\<exists>post. s = sub @ post"
  then show "take (length sub) s = sub"
    by auto
qed

lemma contains_iff: "contains sub s \<longleftrightarrow> (\<exists>pre post. s = pre @ sub @ post)"
proof (induction s)
  case Nil
  show ?case
    by auto
next
  case (Cons c cs)
  have "contains sub (c # cs) \<longleftrightarrow>
      (\<exists>post. c # cs = sub @ post) \<or> (\<exists>pre post. cs = pre @ sub @ post)"
    by (simp only: contains.simps take_is_prefix Cons.IH)
  also have "\<dots> \<longleftrightarrow> (\<exists>pre post. c # cs = pre @ sub @ post)"
  proof
    assume "(\<exists>post. c # cs = sub @ post) \<or> (\<exists>pre post. cs = pre @ sub @ post)"
    then show "\<exists>pre post. c # cs = pre @ sub @ post"
    proof
      assume "\<exists>post. c # cs = sub @ post"
      then obtain post where "c # cs = [] @ sub @ post"
        by auto
      then show ?thesis
        by blast
    next
      assume "\<exists>pre post. cs = pre @ sub @ post"
      then obtain pre post where "c # cs = (c # pre) @ sub @ post"
        by auto
      then show ?thesis
        by blast
    qed
  next
    assume "\<exists>pre post. c # cs = pre @ sub @ post"
    then obtain pre post where eq: "c # cs = pre @ sub @ post"
      by blast
    show "(\<exists>post. c # cs = sub @ post) \<or> (\<exists>pre post. cs = pre @ sub @ post)"
    proof (cases pre)
      case Nil
      with eq show ?thesis
        by auto
    next
      case (Cons d pre')
      with eq have "cs = pre' @ sub @ post"
        by simp
      then show ?thesis
        by blast
    qed
  qed
  finally show ?case .
qed

lemma field_names_contains: "n \<in> set (field_names s) \<Longrightarrow> contains (123 # n) s"
proof (induction s rule: field_names.induct)
  case (1 s)
  from "1.prems" have ne: "s \<noteq> []"
    by (auto simp: field_names.simps [of s] split: if_splits)
  have "\<exists>lit fo rest. markup_next s = Inr (lit, fo, rest)"
  proof (cases "markup_next s")
    case (Inl e)
    with ne "1.prems" show ?thesis
      by (simp add: field_names.simps [of s])
  next
    case (Inr x)
    then show ?thesis
      by (cases x) simp
  qed
  then obtain lit fo rest where mn: "markup_next s = Inr (lit, fo, rest)"
    by blast
  with ne "1.prems" have mem:
    "n \<in> set (case fo of None \<Rightarrow> [] | Some f \<Rightarrow> [first_part (field_name f)]) \<or> n \<in> set (field_names rest)"
    by (auto simp: field_names.simps [of s])
  show ?case
  proof (cases "\<exists>f. fo = Some f \<and> first_part (field_name f) = n")
    case True
    then obtain f where f: "fo = Some f" "first_part (field_name f) = n"
      by blast
    from mn f(1) markup_next_field obtain mid where s: "s = lit @ 123 # field_name f @ mid @ rest"
      by blast
    have "field_name f = n @ rest_part (field_name f)"
      unfolding f(2) [symmetric] first_part_def rest_part_def by simp
    with s have "s = lit @ (123 # n) @ (rest_part (field_name f) @ mid @ rest)"
      by simp
    then show ?thesis
      unfolding contains_iff by blast
  next
    case False
    with mem have "n \<in> set (field_names rest)"
      by (auto split: option.splits)
    from "1.IH" [OF ne mn refl refl this] obtain pre post where "rest = pre @ (123 # n) @ post"
      unfolding contains_iff by blast
    moreover from markup_next_consumes [OF mn ne] obtain pre0 where "s = pre0 @ rest"
      by blast
    ultimately have "s = (pre0 @ pre) @ (123 # n) @ post"
      by simp
    then show ?thesis
      unfolding contains_iff by blast
  qed
qed

text \<open>
  C5 (as amended): a pattern with an \<open>ext\<close> placeholder holds the text \<open>{ext\<close>. For
  every file whose modification time is read and whose name is expanded, the new name
  is the sanitized expansion alone when the pattern, as it is expanded, holds the text
  \<open>{ext\<close> anywhere, and otherwise the sanitized expansion followed by a dot and the
  extension of the file, or by nothing when the extension is empty. The target is
  resolved from the parent of the file and that new name: when an existence check
  raises during the resolution, the file is reported as failed and nothing is recorded;
  otherwise the operation recorded for the file has the resolved target.
\<close>

theorem extension_kept_unless_ext_text:
  "(ustr ''ext'' \<in> set (field_names pat) \<longrightarrow> contains (ustr ''{ext'') pat) \<and>
   (stat_mtime (st_fs st) p = Inr t \<and>
    format_map env pat (context_for env a (st_counter st) p t) = Inr base \<longrightarrow>
      (if unique_target_raises (exists_raises env) (st_fs st) (joinpath (parent p)
            (if contains (ustr ''{ext'') pat then sanitize_filename base
             else sanitize_filename base @ (if ext_of p = [] then [] else 46 # ext_of p)))
       then process_file env a pat st p = Inr (st\<lparr>st_out := st_out st @ [FileFailed p]\<rparr>)
       else (\<exists>st'. process_file env a pat st p = Inr st' \<and>
         st_ops st' = st_ops st @
           [(p, unique_target (st_fs st) (joinpath (parent p)
                  (if contains (ustr ''{ext'') pat then sanitize_filename base
                   else sanitize_filename base @ (if ext_of p = [] then [] else 46 # ext_of p))))])))"
proof (intro conjI impI)
  assume "ustr ''ext'' \<in> set (field_names pat)"
  then have "contains (123 # ustr ''ext'') pat"
    by (rule field_names_contains)
  then show "contains (ustr ''{ext'') pat"
    by simp
next
  let ?new_name = "if contains (ustr ''{ext'') pat then sanitize_filename base
     else sanitize_filename base @ (if ext_of p = [] then [] else 46 # ext_of p)"
  assume "stat_mtime (st_fs st) p = Inr t \<and>
    format_map env pat (context_for env a (st_counter st) p t) = Inr base"
  then have mt: "stat_mtime (st_fs st) p = Inr t"
    and base: "format_map env pat (context_for env a (st_counter st) p t) = Inr base"
    by simp_all
  have name: "new_name_for pat base (ext_of p) = ?new_name"
    by (simp add: new_name_for_def)
  have target: "target_for (st_fs st) pat p base =
      unique_target (st_fs st) (joinpath (parent p) ?new_name)"
    unfolding target_for_def name ..
  have raises: "target_raises env (st_fs st) pat p base =
      unique_target_raises (exists_raises env) (st_fs st) (joinpath (parent p) ?new_name)"
    unfolding target_raises_def name ..
  show "if unique_target_raises (exists_raises env) (st_fs st) (joinpath (parent p) ?new_name)
       then process_file env a pat st p = Inr (st\<lparr>st_out := st_out st @ [FileFailed p]\<rparr>)
       else (\<exists>st'. process_file env a pat st p = Inr st' \<and>
         st_ops st' = st_ops st @
           [(p, unique_target (st_fs st) (joinpath (parent p) ?new_name))])"
  proof (cases "target_raises env (st_fs st) pat p base")
    case True
    from process_file_unresolved [OF mt base True] True show ?thesis
      unfolding raises by simp
  next
    case False
    from process_file_planned [OF mt base False] obtain st' where
      "process_file env a pat st p = Inr st'"
      "st_ops st' = st_ops st @ [(p, target_for (st_fs st) pat p base)]"
      by blast
    with False show ?thesis
      unfolding raises target by simp
  qed
qed

text \<open>
  C5 as stated fails: the pattern \<open>{{ext}}_{counter}\<close> has the single placeholder
  \<open>counter\<close> (the doubled braces are literal braces), yet it holds the text \<open>{ext\<close>, and
  \<open>a.jpg\<close> is planned as \<open>{ext}_1\<close> without its extension.
\<close>

theorem escaped_ext_counterexample:
  "field_names (ustr ''{{ext}}_{counter}'') = [ustr ''counter''] \<and>
   st_ops (final (rename_main sample_env sample_time
      (sample_args\<lparr>arg_pattern := ustr ''{{ext}}_{counter}''\<rparr>) [a_jpg] (disk [a_jpg])))
     = [(a_jpg, [ustr ''{ext}_1''])]"
  by (simp add: run_simps path_simps field_names.simps)

text \<open>
  The amended C5 on two files: with the pattern \<open>{orig}.{ext}\<close>, \<open>a.jpg\<close> is planned
  as \<open>a_1.jpg\<close> (the expansion \<open>a.jpg\<close> is the new name, and it exists); with the
  pattern \<open>{orig}_{counter}\<close>, the new name of the file with the long name is the
  expansion and \<open>.jpg\<close>, 256 characters, and the file is skipped.
\<close>

theorem extension_kept_unless_ext_text_witness:
  "ustr ''ext'' \<in> set (field_names (ustr ''{orig}.{ext}'')) \<and>
   contains (ustr ''{ext'') (ustr ''{orig}.{ext}'') \<and>
   stat_mtime (st_fs (initial sample_args (disk [a_jpg]))) a_jpg = Inr sample_time \<and>
   format_map sample_env (ustr ''{orig}.{ext}'')
     (context_for sample_env sample_args (st_counter (initial sample_args (disk [a_jpg]))) a_jpg sample_time)
     = Inr (ustr ''a.jpg'') \<and>
   \<not> unique_target_raises (exists_raises sample_env) (disk [a_jpg])
       (joinpath (parent a_jpg) (sanitize_filename (ustr ''a.jpg''))) \<and>
   process_file sample_env sample_args (ustr ''{orig}.{ext}'') (initial sample_args (disk [a_jpg])) a_jpg
     = Inr \<lparr>st_counter = 2, st_ops = [(a_jpg, [ustr ''a_1.jpg''])], st_fs = disk [a_jpg],
            st_out = [Planned (ustr ''a.jpg'') (ustr ''a_1.jpg'')]\<rparr> \<and>
   \<not> contains (ustr ''{ext'') (ustr ''{orig}_{counter}'') \<and>
   stat_mtime (st_fs (initial sample_args mixed_disk)) long_jpg = Inr sample_time \<and>
   format_map sample_env (ustr ''{orig}_{counter}'')
     (context_for sample_env sample_args (st_counter (initial sample_args mixed_disk)) long_jpg sample_time)
     = Inr (replicate 250 120 @ ustr ''_1'') \<and>
   unique_target_raises (exists_raises sample_env) mixed_disk
       (joinpath (parent long_jpg)
          (sanitize_filename (replicate 250 120 @ ustr ''_1'') @ 46 # ext_of long_jpg)) \<and>
   process_file sample_env sample_args (ustr ''{orig}_{counter}'') (initial sample_args mixed_disk) long_jpg
     = Inr \<lparr>st_counter = 1, st_ops = [], st_fs = mixed_disk, st_out = [FileFailed long_jpg]\<rparr>"
proof -
  have c1: "ustr ''ext'' \<in> set (field_names (ustr ''{orig}.{ext}''))"
    by (simp add: run_simps path_simps field_names.simps)
  have c2: "contains (ustr ''{ext'') (ustr ''{orig}.{ext}'')"
    by simp
  have c3: "stat_mtime (st_fs (initial sample_args (disk [a_jpg]))) a_jpg = Inr sample_time"
    by (simp add: run_simps path_simps)
  have c4: "format_map sample_env (ustr ''{orig}.{ext}'')
     (context_for sample_env sample_args (st_counter (initial sample_args (disk [a_jpg]))) a_jpg sample_time)
     = Inr (ustr ''a.jpg'')"
    by (simp add: run_simps path_simps)
  have c5: "\<not> unique_target_raises (exists_raises sample_env) (disk [a_jpg])
       (joinpath (parent a_jpg) (sanitize_filename (ustr ''a.jpg'')))"
    by (simp add: run_simps path_simps)
  have c6: "process_file sample_env sample_args (ustr ''{orig}.{ext}'')
       (initial sample_args (disk [a_jpg])) a_jpg
     = Inr \<lparr>st_counter = 2, st_ops = [(a_jpg, [ustr ''a_1.jpg''])], st_fs = disk [a_jpg],
            st_out = [Planned (ustr ''a.jpg'') (ustr ''a_1.jpg'')]\<rparr>"
    by (simp add: run_simps path_simps)
  have d1: "\<not> contains (ustr ''{ext'') (ustr ''{orig}_{counter}'')"
    by simp
  have d2: "stat_mtime (st_fs (initial sample_args mixed_disk)) long_jpg = Inr sample_time"
    by (simp add: run_simps path_simps)
  have d3: "format_map sample_env (ustr ''{orig}_{counter}'')
     (context_for sample_env sample_args (st_counter (initial sample_args mixed_disk)) long_jpg sample_time)
     = Inr (replicate 250 120 @ ustr ''_1'')"
    by (simp add: run_simps path_simps)
  have d4: "unique_target_raises (exists_raises sample_env) mixed_disk
       (joinpath (parent long_jpg)
          (sanitize_filename (replicate 250 120 @ ustr ''_1'') @ 46 # ext_of long_jpg))"
    by (simp add: run_simps path_simps)
  have d5: "process_file sample_env sample_args (ustr ''{orig}_{counter}'')
       (initial sample_args mixed_disk) long_jpg
     = Inr \<lparr>st_counter = 1, st_ops = [], st_fs = mixed_disk, st_out = [FileFailed long_jpg]\<rparr>"
    by (simp add: run_simps path_simps)
  from extension_kept_unless_ext_text [of "ustr ''{orig}.{ext}''"
      "initial sample_args (disk [a_jpg])" a_jpg sample_time sample_env sample_args "ustr ''a.jpg''"]
    extension_kept_unless_ext_text [of "ustr ''{orig}_{counter}''"
      "initial sample_args mixed_disk" long_jpg sample_time sample_env sample_args
      "replicate 250 120 @ ustr ''_1''"]
  show ?thesis
    by (simp only: c1 c2 c3 c4 c5 c6 d1 d2 d3 d4 d5 simp_thms)
qed

section \<open>The date of the naming context\<close>





section \<open>Properties of undo\<close>



lemma undo_item_failed:
  assumes "path_exists (u_fs u) dst" and "\<not> path_exists (u_fs u) src"
    and "rename (u_fs u) dst src = Inl e"
  shows "undo_item verbose u (src, dst) = u\<lparr>u_out := u_out u @ [UndoFailed dst src]\<rparr>"
  using assms by (simp add: undo_item_def)











end
